theory Spec2Isabelle
  imports Complex_Main "HOL-Library.Sublist"
begin

section \<open>Strings of the retrieval core\<close>

text \<open>
  A JavaScript string is a sequence of UTF-16 code units. The model covers the code
  units below 256 (the Latin-1 range), one \<^typ>\<open>char\<close> each, so \<^typ>\<open>string\<close> is the
  type of texts, queries, keywords and citations, and \<^const>\<open>length\<close> is \<open>.length\<close>.
  Numbers are the source's doubles read as real numbers (the scorer is also given over
  an arbitrary arithmetic); counts and indices are natural numbers.
\<close>

definition NL :: char where
  "NL = CHR 0x0A"

definition SP :: char where
  "SP = CHR 0x20"

text \<open>
  The white space of \<open>String.prototype.trim\<close> and of the class \<open>\s\<close>: TAB, LF, VT, FF,
  CR, SPACE and NO-BREAK SPACE are its members below 256.
\<close>

definition isWhiteSpace :: "char \<Rightarrow> bool" where
  "isWhiteSpace c \<longleftrightarrow>
     (let n = (of_char c :: nat) in (9 \<le> n \<and> n \<le> 13) \<or> n = 32 \<or> n = 160)"

text \<open>The class \<open>\w\<close>: \<open>[A-Za-z0-9_]\<close>, on the value of the code unit.\<close>

definition isWordCode :: "nat \<Rightarrow> bool" where
  "isWordCode n \<longleftrightarrow>
     (48 \<le> n \<and> n \<le> 57) \<or> (65 \<le> n \<and> n \<le> 90) \<or> n = 95 \<or> (97 \<le> n \<and> n \<le> 122)"

definition isWordChar :: "char \<Rightarrow> bool" where
  "isWordChar c = isWordCode (of_char c)"

text \<open>
  \<open>String.prototype.toLowerCase\<close>, one code unit at a time: \<open>A-Z\<close> and the Latin-1
  capitals \<open>U+00C0 .. U+00DE\<close> (the multiplication sign \<open>U+00D7\<close> apart) move up by 32.
\<close>

definition lowerCode :: "nat \<Rightarrow> nat" where
  "lowerCode n =
     (if (65 \<le> n \<and> n \<le> 90) \<or> (192 \<le> n \<and> n \<le> 222 \<and> n \<noteq> 215) then n + 32 else n)"

definition toLowerChar :: "char \<Rightarrow> char" where
  "toLowerChar c = char_of (lowerCode (of_char c))"

definition toLowerCase :: "string \<Rightarrow> string" where
  "toLowerCase s = map toLowerChar s"

text \<open>\<open>String.prototype.trim\<close>: the white space at both ends is removed.\<close>

definition trim :: "string \<Rightarrow> string" where
  "trim s = rev (dropWhile isWhiteSpace (rev (dropWhile isWhiteSpace s)))"

text \<open>\<open>Array.prototype.join\<close> on strings.\<close>

fun join :: "string list \<Rightarrow> string \<Rightarrow> string" where
  "join [] sep = []"
| "join [x] sep = x"
| "join (x # y # ys) sep = x @ sep @ join (y # ys) sep"

text \<open>
  \<open>s.split(/\s+/)\<close>: the separators are the maximal runs of white space; the pieces
  before a leading and after a trailing separator are empty strings, and the empty
  string splits into one empty piece.
\<close>

function splitWhiteSpace :: "string \<Rightarrow> string list" where
  "splitWhiteSpace [] = [[]]"
| "splitWhiteSpace (c # cs) =
     (if isWhiteSpace c then [] # splitWhiteSpace (dropWhile isWhiteSpace cs)
      else (case splitWhiteSpace cs of
              [] \<Rightarrow> [[c]]
            | p # ps \<Rightarrow> (c # p) # ps))"
  by pat_completeness auto
termination
  by (relation "measure length") (auto simp: length_dropWhile_le less_Suc_eq_le)

text \<open>
  \<open>s.split(/\n\n+/)\<close>: the separators are the maximal runs of two or more line feeds;
  a single line feed stays inside its piece.
\<close>

function splitParagraphs :: "string \<Rightarrow> string list" where
  "splitParagraphs [] = [[]]"
| "splitParagraphs (c # cs) =
     (if c = NL \<and> cs \<noteq> [] \<and> hd cs = NL
      then [] # splitParagraphs (dropWhile (\<lambda>x. x = NL) cs)
      else (case splitParagraphs cs of
              [] \<Rightarrow> [[c]]
            | p # ps \<Rightarrow> (c # p) # ps))"
  by pat_completeness auto
termination
  by (relation "measure length") (auto simp: length_dropWhile_le less_Suc_eq_le)

section \<open>Keyword extraction\<close>

definition STOP_WORDS :: "string list" where
  "STOP_WORDS =
     [''a'', ''an'', ''and'', ''are'', ''as'', ''at'', ''be'', ''by'', ''for'', ''from'',
      ''has'', ''he'', ''in'', ''is'', ''it'', ''its'', ''of'', ''on'', ''that'', ''the'',
      ''to'', ''was'', ''were'', ''will'', ''with'', ''what'', ''how'', ''why'', ''when'',
      ''where'', ''who'', ''which'', ''can'', ''do'', ''does'', ''did'', ''have'', ''had'',
      ''me'', ''my'', ''about'', ''tell'', ''explain'', ''describe'', ''i'', ''you'', ''your'']"

text \<open>\<open>.replace(/[^\w\s]/g, ' ')\<close>.\<close>

definition replaceNonWord :: "string \<Rightarrow> string" where
  "replaceNonWord s = map (\<lambda>c. if isWordChar c \<or> isWhiteSpace c then c else SP) s"

definition extractKeywords :: "string \<Rightarrow> string list" where
  "extractKeywords query =
     filter (\<lambda>word. length word > 2 \<and> word \<notin> set STOP_WORDS)
       (splitWhiteSpace (replaceNonWord (toLowerCase query)))"

section \<open>Chunking\<close>

record Document =
  content :: string
  citation :: string

record DocumentChunk = Document +
  chunkIndex :: nat
  totalChunks :: nat

record RetrievalConfig =
  maxChunkSize :: nat
  topK :: nat
  minScore :: real

text \<open>\<open>Math.ceil(s.length / 4)\<close>, the approximate token count of a string.\<close>

definition tokenCount :: "string \<Rightarrow> nat" where
  "tokenCount s = (length s + 3) div 4"

text \<open>
  The paragraph loop of \<open>splitIntoChunks\<close>, on the pair of its two variables
  \<open>chunks\<close> and \<open>currentChunk\<close>; a string is truthy when it is not empty.
\<close>

fun paragraphLoop :: "nat \<Rightarrow> string list \<Rightarrow> string list \<times> string \<Rightarrow> string list \<times> string" where
  "paragraphLoop maxSize [] (chunks, currentChunk) = (chunks, currentChunk)"
| "paragraphLoop maxSize (paragraph # rest) (chunks, currentChunk) =
     (let trimmedPara = trim paragraph in
      if trimmedPara = [] then paragraphLoop maxSize rest (chunks, currentChunk)
      else if tokenCount currentChunk + tokenCount trimmedPara > maxSize \<and> currentChunk \<noteq> []
      then paragraphLoop maxSize rest (chunks @ [trim currentChunk], trimmedPara)
      else paragraphLoop maxSize rest
             (chunks, currentChunk @ (if currentChunk \<noteq> [] then [NL, NL] else []) @ trimmedPara))"

text \<open>The flush after the loop: a last chunk that is not blank is pushed.\<close>

definition flushChunk :: "string list \<times> string \<Rightarrow> string list" where
  "flushChunk st = (if trim (snd st) \<noteq> [] then fst st @ [trim (snd st)] else fst st)"

definition splitIntoChunks :: "string \<Rightarrow> nat \<Rightarrow> string list" where
  "splitIntoChunks text maxSize =
     (let chunks = flushChunk (paragraphLoop maxSize (splitParagraphs text) ([], []))
      in if length chunks > 0 then chunks else [text])"

text \<open>
  \<open>chunkDocuments\<close>: the outer loop over the documents and the inner \<open>forEach\<close> over
  the numbered chunks of one document, both pushing onto \<open>chunks\<close>.
\<close>

definition pushDocChunks :: "RetrievalConfig \<Rightarrow> Document \<Rightarrow> DocumentChunk list \<Rightarrow> DocumentChunk list" where
  "pushDocChunks cfg doc chunks =
     (let docChunks = splitIntoChunks (content doc) (maxChunkSize cfg) in
      fold (\<lambda>(index, chunk) acc.
              acc @ [\<lparr>content = chunk, citation = citation doc,
                      chunkIndex = index, totalChunks = length docChunks\<rparr>])
           (enumerate 0 docChunks) chunks)"

definition chunkDocuments :: "RetrievalConfig \<Rightarrow> Document list \<Rightarrow> DocumentChunk list" where
  "chunkDocuments cfg documents = fold (pushDocChunks cfg) documents []"

section \<open>Scoring\<close>

text \<open>
  The pattern of \<open>calculateScore\<close> is \<open>\bKEYWORD\b\<close> with the flags \<open>g\<close> and \<open>i\<close>, the
  keyword being put into the pattern text as it is. The model below is the matcher for
  the keywords the pattern takes literally, those without a pattern syntax character
  (one of \<^verbatim>\<open>^ $ \ . * + ? ( ) [ ] { } |\<close>); a keyword with such a character denotes
  another pattern, or none, and is outside the model. The keywords that reach
  \<open>calculateScore\<close> come from \<open>extractKeywords\<close> and consist of word characters.

  \<open>canonicalize\<close> is the case folding of the flag \<open>i\<close> (the upper case of a code unit,
  unless that is more than one unit or leaves the range above 127 for ASCII). The code
  units \<open>U+00B5\<close> and \<open>U+00FF\<close>, whose upper case lies beyond 255 and is the upper case of
  no other unit below 256, stand for their own class.
\<close>

definition upperCode :: "nat \<Rightarrow> nat" where
  "upperCode n =
     (if (97 \<le> n \<and> n \<le> 122) \<or> (224 \<le> n \<and> n \<le> 254 \<and> n \<noteq> 247) then n - 32 else n)"

definition canonicalize :: "char \<Rightarrow> char" where
  "canonicalize c = char_of (upperCode (of_char c))"

text \<open>The assertion \<open>\b\<close> at index \<open>i\<close>: exactly one side of the position is a word character.\<close>

definition wordBoundary :: "string \<Rightarrow> nat \<Rightarrow> bool" where
  "wordBoundary s i \<longleftrightarrow>
     ((0 < i \<and> i \<le> length s \<and> isWordChar (s ! (i - 1))) \<noteq> (i < length s \<and> isWordChar (s ! i)))"

definition matchesAt :: "string \<Rightarrow> string \<Rightarrow> nat \<Rightarrow> bool" where
  "matchesAt keyword s i \<longleftrightarrow>
     i + length keyword \<le> length s \<and> wordBoundary s i \<and>
     map canonicalize (take (length keyword) (drop i s)) = map canonicalize keyword \<and>
     wordBoundary s (i + length keyword)"

text \<open>
  The global match: the search resumes at \<open>lastIndex\<close>, the end of the previous match
  (one further when that match was empty), and collects the matched substrings.
\<close>

function globalMatches :: "string \<Rightarrow> string \<Rightarrow> nat \<Rightarrow> string list" where
  "globalMatches keyword s lastIndex =
     (if lastIndex > length s then []
      else if matchesAt keyword s lastIndex
      then take (length keyword) (drop lastIndex s) #
           globalMatches keyword s (if keyword = [] then lastIndex + 1 else lastIndex + length keyword)
      else globalMatches keyword s (lastIndex + 1))"
  by pat_completeness auto
termination
  by (relation "measure (\<lambda>(keyword, s, lastIndex). Suc (length s) - lastIndex)")
     (auto simp: matchesAt_def neq_Nil_conv)

declare globalMatches.simps [simp del]

text \<open>\<open>String.prototype.match\<close> with a global pattern: \<open>null\<close> when nothing matches.\<close>

definition matchGlobal :: "string \<Rightarrow> string \<Rightarrow> string list option" where
  "matchGlobal s keyword =
     (let ms = globalMatches keyword s 0 in if ms = [] then None else Some ms)"

text \<open>The keyword loop of \<open>calculateScore\<close>, on the pair \<open>(score, matchedKeywords)\<close>.\<close>

fun keywordLoop :: "string \<Rightarrow> string list \<Rightarrow> real \<times> nat \<Rightarrow> real \<times> nat" where
  "keywordLoop contentLower [] (score, matchedKeywords) = (score, matchedKeywords)"
| "keywordLoop contentLower (keyword # rest) (score, matchedKeywords) =
     (case matchGlobal contentLower keyword of
        None \<Rightarrow> keywordLoop contentLower rest (score, matchedKeywords)
      | Some matches \<Rightarrow>
          keywordLoop contentLower rest (score + ln (1 + real (length matches)), matchedKeywords + 1))"

definition calculateScore :: "string \<Rightarrow> string list \<Rightarrow> real" where
  "calculateScore cont keywords =
     (if length keywords = 0 then 0
      else
        let contentLower = toLowerCase cont;
            (score, matchedKeywords) = keywordLoop contentLower keywords (0, 0);
            coverageBonus = real matchedKeywords / real (length keywords)
        in (score * coverageBonus) / sqrt (real (length keywords)))"





section \<open>The retrieval index\<close>

record SearchResult = Document +
  score :: real

text \<open>The \<open>content\<close> of a \<open>RenderedContext\<close> is the field \<open>contextContent\<close> here.\<close>

record RenderedContext =
  contextContent :: string
  sources :: "string list"

record MyDataSource =
  data :: "Document list"
  chunks :: "DocumentChunk list"
  config :: RetrievalConfig

definition defaultConfig :: RetrievalConfig where
  "defaultConfig = \<lparr>maxChunkSize = 800, topK = 3, minScore = 0.1\<rparr>"

text \<open>The constructor, with the configuration after the defaults were merged in.\<close>

definition newMyDataSource :: "RetrievalConfig \<Rightarrow> MyDataSource" where
  "newMyDataSource cfg = \<lparr>data = [], chunks = [], config = cfg\<rparr>"

text \<open>
  \<open>init\<close> reads the data directory: \<open>None\<close> when it does not exist, otherwise its
  entries in the order of \<open>readdirSync\<close>, each with its text or \<open>None\<close> when reading it
  throws.
\<close>

definition loadFile :: "string \<times> string option \<Rightarrow> Document" where
  "loadFile entry =
     (case snd entry of
        Some text \<Rightarrow> \<lparr>content = trim text, citation = fst entry\<rparr>
      | None \<Rightarrow> \<lparr>content = [], citation = fst entry\<rparr>)"

definition init :: "(string \<times> string option) list option \<Rightarrow> MyDataSource \<Rightarrow> MyDataSource" where
  "init dir st =
     (case dir of
        None \<Rightarrow> st
      | Some files \<Rightarrow>
          (let loaded = filter (\<lambda>item. length (content item) > 0) (map loadFile files)
           in st\<lparr>data := loaded, chunks := chunkDocuments (config st) loaded\<rparr>))"

text \<open>
  \<open>search\<close>. The scored chunks are the pairs of a chunk and its score; \<open>sort\<close> with
  the comparator \<open>b.score - a.score\<close> is the stable sort by descending score.
\<close>

definition toSearchResult :: "DocumentChunk \<times> real \<Rightarrow> SearchResult" where
  "toSearchResult sc = \<lparr>content = content (fst sc), citation = citation (fst sc), score = snd sc\<rparr>"

definition search :: "MyDataSource \<Rightarrow> string \<Rightarrow> SearchResult list" where
  "search st query =
     (if query = [] then []
      else
        let keywords = extractKeywords query in
        if length keywords = 0
        then (case data st of
                [] \<Rightarrow> []
              | d # _ \<Rightarrow> [\<lparr>content = content d, citation = citation d, score = 0.5\<rparr>])
        else
          let scoredChunks = map (\<lambda>chunk. (chunk, calculateScore (content chunk) keywords)) (chunks st);
              relevantChunks =
                take (topK (config st))
                  (sort_key (\<lambda>sc. - snd sc)
                    (filter (\<lambda>sc. snd sc \<ge> minScore (config st)) scoredChunks))
          in map toSearchResult relevantChunks)"

definition formatDocument :: "string \<Rightarrow> string \<Rightarrow> string" where
  "formatDocument cont cit =
     ''<context source='' @ [CHR 0x22] @ cit @ [CHR 0x22] @ ''>'' @ [NL] @ cont @ [NL] @ ''</context>''"

definition renderStep :: "SearchResult \<Rightarrow> string \<times> string list \<Rightarrow> string \<times> string list" where
  "renderStep result acc =
     (fst acc @ formatDocument (content result) (citation result) @ [NL, NL],
      snd acc @ [citation result])"

definition renderContext :: "MyDataSource \<Rightarrow> string \<Rightarrow> RenderedContext" where
  "renderContext st query =
     (let searchResults = search st query in
      if length searchResults = 0 then \<lparr>contextContent = [], sources = []\<rparr>
      else
        let acc = fold renderStep searchResults ([], [])
        in \<lparr>contextContent = trim (fst acc), sources = snd acc\<rparr>)"

section \<open>The SharePoint data source\<close>

record SharePointDocument =
  sp_id :: string
  sp_name :: string
  sp_webUrl :: string
  sp_content :: string
  sp_lastModified :: nat

record SharePointDataSource =
  sp_documents :: "SharePointDocument list"
  sp_initialized :: bool

definition newSharePointDataSource :: SharePointDataSource where
  "newSharePointDataSource = \<lparr>sp_documents = [], sp_initialized = False\<rparr>"

text \<open>
  \<open>init\<close> of the SharePoint source: \<open>enabled\<close> is \<open>config.sharePoint.enabled\<close>. The
  body of the \<open>try\<close> block logs and sets the flag; the fetch is a comment.
\<close>

definition sp_init :: "bool \<Rightarrow> SharePointDataSource \<Rightarrow> SharePointDataSource" where
  "sp_init enabled st = (if \<not> enabled then st else st\<lparr>sp_initialized := True\<rparr>)"

text \<open>\<open>String.prototype.includes\<close> (\<open>includes\<close> is a keyword of Isabelle).\<close>

definition includes_str :: "string \<Rightarrow> string \<Rightarrow> bool" where
  "includes_str s sub \<longleftrightarrow> list_ex (\<lambda>i. take (length sub) (drop i s) = sub) [0 ..< Suc (length s)]"

definition sp_search :: "SharePointDataSource \<Rightarrow> string \<Rightarrow> SearchResult list" where
  "sp_search st query =
     (if \<not> sp_initialized st \<or> length (sp_documents st) = 0 then []
      else
        let queryLower = toLowerCase query in
        fold (\<lambda>doc results.
                if includes_str (toLowerCase (sp_content doc)) queryLower
                then results @ [\<lparr>content = sp_content doc, citation = sp_name doc, score = 1\<rparr>]
                else results)
             (sp_documents st) [])"

definition sp_renderStep :: "SearchResult \<Rightarrow> string \<times> string list \<Rightarrow> string \<times> string list" where
  "sp_renderStep result acc =
     (fst acc @ ''<context source='' @ [CHR 0x22] @ citation result @ [CHR 0x22] @ ''>'' @ [NL]
        @ content result @ [NL] @ ''</context>'' @ [NL, NL],
      snd acc @ [citation result])"

definition sp_renderContext :: "SharePointDataSource \<Rightarrow> string \<Rightarrow> RenderedContext" where
  "sp_renderContext st query =
     (let searchResults = sp_search st query in
      if length searchResults = 0 then \<lparr>contextContent = [], sources = []\<rparr>
      else
        let acc = fold sp_renderStep searchResults ([], [])
        in \<lparr>contextContent = trim (fst acc), sources = snd acc\<rparr>)"

text \<open>The states a SharePoint source can be in: constructed, then any number of \<open>init\<close> calls.\<close>

inductive sp_reachable :: "SharePointDataSource \<Rightarrow> bool" where
  sp_new: "sp_reachable newSharePointDataSource"
| sp_step: "sp_reachable st \<Longrightarrow> sp_reachable (sp_init enabled st)"

text \<open>The states of the local index: constructed, then any number of \<open>init\<close> calls.\<close>

inductive reachable :: "MyDataSource \<Rightarrow> bool" where
  r_new: "reachable (newMyDataSource cfg)"
| r_init: "reachable st \<Longrightarrow> reachable (init dir st)"

section \<open>Notions used in the statements\<close>

text \<open>A string that is not empty and has no white space at either end.\<close>

definition solid :: "string \<Rightarrow> bool" where
  "solid s \<longleftrightarrow> s \<noteq> [] \<and> \<not> isWhiteSpace (hd s) \<and> \<not> isWhiteSpace (last s)"

text \<open>The trimmed non-empty paragraphs of a text, in order.\<close>

definition paragraphsOf :: "string \<Rightarrow> string list" where
  "paragraphsOf text = filter (\<lambda>p. p \<noteq> []) (map trim (splitParagraphs text))"

text \<open>The join with blank lines, as the chunker and the claims use it.\<close>

definition joinNL :: "string list \<Rightarrow> string" where
  "joinNL g = join g [NL, NL]"

text \<open>The filter, sort and slice of \<open>search\<close>, applied to the scored chunks.\<close>

definition ranked :: "RetrievalConfig \<Rightarrow> (DocumentChunk \<times> real) list \<Rightarrow> (DocumentChunk \<times> real) list" where
  "ranked cfg scored =
     take (topK cfg) (sort_key (\<lambda>sc. - snd sc) (filter (\<lambda>sc. snd sc \<ge> minScore cfg) scored))"

text \<open>
  An index for the examples: one file of two paragraphs that a budget of 5 tokens
  splits into two chunks, and one file without the word that is searched.
\<close>

definition exampleSource :: MyDataSource where
  "exampleSource =
     init (Some [(''a.txt'', Some (''The fox runs.'' @ [NL, NL] @ ''A quick fox, a brown fox.'')),
                 (''b.txt'', Some ''dog'')])
          (newMyDataSource (defaultConfig\<lparr>maxChunkSize := 5\<rparr>))"







section \<open>The SharePoint source holds no document\<close>

lemma sp_reachable_documents: "sp_reachable st \<Longrightarrow> sp_documents st = []"
  by (induction rule: sp_reachable.induct) (simp_all add: newSharePointDataSource_def sp_init_def)

text \<open>
  Claim C10. In every reachable state of the SharePoint source the document list is
  empty, since \<open>init\<close> appends nothing; so \<open>search\<close> returns the empty sequence and
  \<open>renderContext\<close> returns the empty content with no sources, for every query.
\<close>

theorem sharepoint_returns_nothing:
  "sp_reachable st \<Longrightarrow>
     sp_documents st = [] \<and> sp_search st query = [] \<and>
     sp_renderContext st query = \<lparr>contextContent = [], sources = []\<rparr>"
proof -
  assume "sp_reachable st"
  then have docs: "sp_documents st = []"
    by (rule sp_reachable_documents)
  then have "sp_search st query = []"
    by (simp add: sp_search_def)
  with docs show ?thesis
    by (simp add: sp_renderContext_def)
qed

theorem sharepoint_returns_nothing_witness:
  "sp_reachable (sp_init True newSharePointDataSource) \<and>
   sp_initialized (sp_init True newSharePointDataSource) \<and>
   sp_search (sp_init True newSharePointDataSource) ''fox'' = [] \<and>
   sp_renderContext (sp_init True newSharePointDataSource) ''fox'' = \<lparr>contextContent = [], sources = []\<rparr>"
proof -
  have r: "sp_reachable (sp_init True newSharePointDataSource)"
    by (rule sp_step [OF sp_new])
  show ?thesis
    using r sharepoint_returns_nothing [OF r, of "''fox''"] by (simp add: sp_init_def)
qed

section \<open>Initialisation without a data directory\<close>

lemma search_no_documents: "data st = [] \<Longrightarrow> chunks st = [] \<Longrightarrow> search st query = []"
  by (simp add: search_def Let_def)

text \<open>
  Claim C5, as stated, fails: when the data directory is missing \<open>init\<close> returns before
  it touches the stores, so documents loaded by an earlier \<open>init\<close> stay. Here one file
  is loaded, the directory then disappears, and after the second \<open>init\<close> the document,
  its chunk and the keyword-less fallback result are all still there.
\<close>

theorem init_missing_directory_counterexample:
  "data (init None (init (Some [(''a.txt'', Some ''hello'')]) (newMyDataSource defaultConfig)))
     = [\<lparr>content = ''hello'', citation = ''a.txt''\<rparr>] \<and>
   chunks (init None (init (Some [(''a.txt'', Some ''hello'')]) (newMyDataSource defaultConfig)))
     = [\<lparr>content = ''hello'', citation = ''a.txt'', chunkIndex = 0, totalChunks = 1\<rparr>] \<and>
   search (init None (init (Some [(''a.txt'', Some ''hello'')]) (newMyDataSource defaultConfig))) ''what is it about''
     = [\<lparr>content = ''hello'', citation = ''a.txt'', score = 0.5\<rparr>]"
proof -
  have d: "data (init (Some [(''a.txt'', Some ''hello'')]) (newMyDataSource defaultConfig))
             = [\<lparr>content = ''hello'', citation = ''a.txt''\<rparr>]"
    by code_simp
  have c: "chunks (init (Some [(''a.txt'', Some ''hello'')]) (newMyDataSource defaultConfig))
             = [\<lparr>content = ''hello'', citation = ''a.txt'', chunkIndex = 0, totalChunks = 1\<rparr>]"
    by code_simp
  have k: "extractKeywords ''what is it about'' = []"
    by code_simp
  have n: "init None st = st" for st
    by (simp add: init_def)
  show ?thesis
    by (simp add: n d c k search_def)
qed

text \<open>
  Claim C5, amended. When the data directory is missing, \<open>init\<close> leaves the document
  and chunk stores as they were. On a freshly constructed index they are empty, and
  whenever both stores are empty every search, the keyword-less fallback included,
  returns the empty sequence.
\<close>

theorem init_missing_directory:
  "init None st = st \<and>
   data (init None (newMyDataSource cfg)) = [] \<and>
   chunks (init None (newMyDataSource cfg)) = [] \<and>
   (data st = [] \<and> chunks st = [] \<longrightarrow> search (init None st) query = [])"
  by (simp add: init_def newMyDataSource_def search_no_documents)

theorem init_missing_directory_witness:
  "data (newMyDataSource defaultConfig) = [] \<and> chunks (newMyDataSource defaultConfig) = [] \<and>
   search (init None (newMyDataSource defaultConfig)) ''quick fox'' = []"
proof -
  have h: "data (newMyDataSource defaultConfig) = [] \<and> chunks (newMyDataSource defaultConfig) = []"
    by (simp add: newMyDataSource_def)
  from init_missing_directory [of "newMyDataSource defaultConfig" defaultConfig "''quick fox''"] h
  show ?thesis by blast
qed

section \<open>Trimming, joining and paragraphs\<close>

lemma trim_Nil [simp]: "trim [] = []"
  by (simp add: trim_def)

lemma dropWhile_eq_Nil_all: "dropWhile P xs = [] \<longleftrightarrow> (\<forall>x\<in>set xs. P x)"
  by (induction xs) auto

lemma trim_eq_Nil: "trim s = [] \<longleftrightarrow> (\<forall>c\<in>set s. isWhiteSpace c)"
proof
  assume "trim s = []"
  then have "dropWhile isWhiteSpace (rev (dropWhile isWhiteSpace s)) = []"
    by (simp add: trim_def)
  then have all: "\<forall>c\<in>set (dropWhile isWhiteSpace s). isWhiteSpace c"
    by (simp add: dropWhile_eq_Nil_all)
  have "dropWhile isWhiteSpace s = []"
  proof (rule ccontr)
    assume ne: "dropWhile isWhiteSpace s \<noteq> []"
    then have "\<not> isWhiteSpace (hd (dropWhile isWhiteSpace s))"
      by (rule hd_dropWhile)
    moreover from ne have "hd (dropWhile isWhiteSpace s) \<in> set (dropWhile isWhiteSpace s)"
      by (rule hd_in_set)
    ultimately show False using all by blast
  qed
  then show "\<forall>c\<in>set s. isWhiteSpace c"
    by (simp add: dropWhile_eq_Nil_all)
next
  assume "\<forall>c\<in>set s. isWhiteSpace c"
  then have d: "dropWhile isWhiteSpace s = []"
    by (simp add: dropWhile_eq_Nil_all)
  show "trim s = []"
    unfolding trim_def d by simp
qed

lemma last_dropWhile: "dropWhile P xs \<noteq> [] \<Longrightarrow> last (dropWhile P xs) = last xs"
  by (induction xs) (auto split: if_splits)

lemma trim_solid: "trim s \<noteq> [] \<Longrightarrow> solid (trim s)"
proof -
  assume ne: "trim s \<noteq> []"
  let ?t = "dropWhile isWhiteSpace s"
  let ?u = "dropWhile isWhiteSpace (rev ?t)"
  from ne have u: "?u \<noteq> []" by (simp add: trim_def)
  have t: "?t \<noteq> []"
  proof
    assume e: "?t = []"
    have "?u = []" unfolding e by simp
    with u show False by simp
  qed
  have "hd (trim s) = last ?u" using u by (simp add: trim_def hd_rev)
  also have "\<dots> = last (rev ?t)" using u by (rule last_dropWhile)
  also have "\<dots> = hd ?t" using t by (simp add: last_rev)
  finally have h: "\<not> isWhiteSpace (hd (trim s))"
    using hd_dropWhile [OF t] by simp
  have "last (trim s) = hd ?u" using u by (simp add: trim_def last_rev)
  then have l: "\<not> isWhiteSpace (last (trim s))"
    using hd_dropWhile [OF u] by simp
  from ne h l show ?thesis by (simp add: solid_def)
qed

lemma solid_trim: "solid s \<Longrightarrow> trim s = s"
proof -
  assume s: "solid s"
  then have a: "dropWhile isWhiteSpace s = s"
    by (cases s) (auto simp: solid_def)
  from s have "rev s \<noteq> []" "\<not> isWhiteSpace (hd (rev s))"
    by (auto simp: solid_def hd_rev)
  then have b: "dropWhile isWhiteSpace (rev s) = rev s"
    by (cases "rev s") auto
  show ?thesis by (simp add: trim_def a b)
qed

lemma solid_not_Nil: "solid s \<Longrightarrow> s \<noteq> []"
  by (simp add: solid_def)

lemma join_snoc: "xs \<noteq> [] \<Longrightarrow> join (xs @ [x]) sep = join xs sep @ sep @ x"
  by (induction xs sep rule: join.induct) auto

lemma join_append: "xs \<noteq> [] \<Longrightarrow> ys \<noteq> [] \<Longrightarrow> join (xs @ ys) sep = join xs sep @ sep @ join ys sep"
  by (induction xs sep rule: join.induct) (auto simp: neq_Nil_conv)

lemma join_concat: "[] \<notin> set gs \<Longrightarrow> join (map (\<lambda>g. join g sep) gs) sep = join (concat gs) sep"
proof (induction gs)
  case Nil
  then show ?case by simp
next
  case (Cons g gs)
  show ?case
  proof (cases gs)
    case Nil
    then show ?thesis by simp
  next
    case (Cons h hs)
    with Cons.prems have "concat gs \<noteq> []" "g \<noteq> []" by auto
    then have "join (g @ concat gs) sep = join g sep @ sep @ join (concat gs) sep"
      by (simp add: join_append)
    with Cons.IH Cons.prems Cons show ?thesis by simp
  qed
qed

lemma hd_join: "xs \<noteq> [] \<Longrightarrow> hd xs \<noteq> [] \<Longrightarrow> hd (join xs sep) = hd (hd xs)"
  by (induction xs sep rule: join.induct) auto

lemma join_not_Nil: "xs \<noteq> [] \<Longrightarrow> \<forall>p\<in>set xs. p \<noteq> [] \<Longrightarrow> join xs sep \<noteq> []"
  by (induction xs sep rule: join.induct) auto

lemma last_join: "xs \<noteq> [] \<Longrightarrow> \<forall>p\<in>set xs. p \<noteq> [] \<Longrightarrow> last (join xs sep) = last (last xs)"
  by (induction xs sep rule: join.induct) (auto simp: join_not_Nil)

lemma join_solid: "g \<noteq> [] \<Longrightarrow> \<forall>p\<in>set g. solid p \<Longrightarrow> solid (join g sep)"
proof -
  assume g: "g \<noteq> []" and s: "\<forall>p\<in>set g. solid p"
  then have ne: "\<forall>p\<in>set g. p \<noteq> []" by (auto simp: solid_def)
  from g s have "solid (hd g)" "solid (last g)" by auto
  with g ne show ?thesis
    by (simp add: solid_def hd_join last_join join_not_Nil)
qed


lemma splitParagraphs_not_Nil: "splitParagraphs text \<noteq> []"
  by (induction "text" rule: splitParagraphs.induct) (auto split: list.splits)

lemma splitParagraphs_subset: "p \<in> set (splitParagraphs text) \<Longrightarrow> set p \<subseteq> set text"
proof (induction "text" arbitrary: p rule: splitParagraphs.induct)
  case 1
  then show ?case by simp
next
  case (2 c cs)
  show ?case
  proof (cases "c = NL \<and> cs \<noteq> [] \<and> hd cs = NL")
    case True
    with "2.prems" have "p = [] \<or> p \<in> set (splitParagraphs (dropWhile (\<lambda>x. x = NL) cs))"
      by auto
    then show ?thesis
    proof
      assume "p = []"
      then show ?thesis by simp
    next
      assume "p \<in> set (splitParagraphs (dropWhile (\<lambda>x. x = NL) cs))"
      then have "set p \<subseteq> set (dropWhile (\<lambda>x. x = NL) cs)"
        using "2.IH"(1) True by blast
      also have "\<dots> \<subseteq> set cs"
        by (auto dest: set_dropWhileD)
      finally show ?thesis by auto
    qed
  next
    case False
    obtain q qs where q: "splitParagraphs cs = q # qs"
      using splitParagraphs_not_Nil [of cs] by (cases "splitParagraphs cs") auto
    with False "2.prems" have "p = c # q \<or> p \<in> set qs"
      by auto
    then show ?thesis
    proof
      assume "p = c # q"
      moreover have "set q \<subseteq> set cs"
        using "2.IH"(2) [of q] False q by auto
      ultimately show ?thesis by auto
    next
      assume "p \<in> set qs"
      then have "set p \<subseteq> set cs"
        using "2.IH"(2) [of p] False q by auto
      then show ?thesis by auto
    qed
  qed
qed

lemma splitParagraphs_cover:
  "c \<in> set text \<Longrightarrow> c = NL \<or> (\<exists>p\<in>set (splitParagraphs text). c \<in> set p)"
proof (induction "text" rule: splitParagraphs.induct)
  case 1
  then show ?case by simp
next
  case (2 d ds)
  show ?case
  proof (cases "d = NL \<and> ds \<noteq> [] \<and> hd ds = NL")
    case True
    show ?thesis
    proof (cases "c \<in> set (dropWhile (\<lambda>x. x = NL) ds)")
      case True
      with "2.IH"(1) \<open>d = NL \<and> ds \<noteq> [] \<and> hd ds = NL\<close> show ?thesis by auto
    next
      case False
      have "ds = takeWhile (\<lambda>x. x = NL) ds @ dropWhile (\<lambda>x. x = NL) ds"
        by simp
      then have "set ds = set (takeWhile (\<lambda>x. x = NL) ds) \<union> set (dropWhile (\<lambda>x. x = NL) ds)"
        by (metis set_append)
      with False "2.prems" True have "c = NL \<or> c \<in> set (takeWhile (\<lambda>x. x = NL) ds)"
        by auto
      then show ?thesis
        by (auto dest: set_takeWhileD)
    qed
  next
    case False
    obtain q qs where q: "splitParagraphs ds = q # qs"
      using splitParagraphs_not_Nil [of ds] by (cases "splitParagraphs ds") auto
    show ?thesis
    proof (cases "c = d")
      case True
      with False q show ?thesis by auto
    next
      case ne: False
      with "2.prems" have "c \<in> set ds" by simp
      with "2.IH"(2) False have "c = NL \<or> (\<exists>p\<in>set (q # qs). c \<in> set p)"
        using q by auto
      with False q show ?thesis by auto
    qed
  qed
qed

lemma isWhiteSpace_NL: "isWhiteSpace NL"
  by (simp add: isWhiteSpace_def NL_def)

lemma paragraphsOf_Nil_iff: "paragraphsOf text = [] \<longleftrightarrow> (\<forall>c\<in>set text. isWhiteSpace c)"
proof
  assume e: "paragraphsOf text = []"
  show "\<forall>c\<in>set text. isWhiteSpace c"
  proof
    fix c assume c: "c \<in> set text"
    from e have all: "\<forall>p\<in>set (splitParagraphs text). trim p = []"
      by (auto simp: paragraphsOf_def filter_empty_conv)
    from splitParagraphs_cover [OF c] show "isWhiteSpace c"
    proof
      assume "c = NL" then show ?thesis by (simp add: isWhiteSpace_NL)
    next
      assume "\<exists>p\<in>set (splitParagraphs text). c \<in> set p"
      then obtain p where "p \<in> set (splitParagraphs text)" "c \<in> set p" by blast
      with all show ?thesis by (auto simp: trim_eq_Nil)
    qed
  qed
next
  assume a: "\<forall>c\<in>set text. isWhiteSpace c"
  have "trim p = []" if "p \<in> set (splitParagraphs text)" for p
    using splitParagraphs_subset [OF that] a by (auto simp: trim_eq_Nil)
  then show "paragraphsOf text = []"
    by (auto simp: paragraphsOf_def filter_empty_conv)
qed


lemma joinNL_single: "joinNL [t] = t"
  by (simp add: joinNL_def)

lemma joinNL_snoc:
  assumes "\<forall>p\<in>set g. solid p"
  shows "joinNL g @ (if joinNL g \<noteq> [] then [NL, NL] else []) @ t = joinNL (g @ [t])"
proof (cases "g = []")
  case True
  then show ?thesis by (simp add: joinNL_def)
next
  case False
  with assms have "joinNL g \<noteq> []"
    unfolding joinNL_def by (intro join_not_Nil) (auto simp: solid_def)
  with False show ?thesis by (simp add: joinNL_def join_snoc)
qed

lemma joinNL_Nil_iff: "\<forall>p\<in>set g. solid p \<Longrightarrow> joinNL g = [] \<longleftrightarrow> g = []"
proof
  assume a: "\<forall>p\<in>set g. solid p" and e: "joinNL g = []"
  show "g = []"
  proof (rule ccontr)
    assume "g \<noteq> []"
    with a have "join g [NL, NL] \<noteq> []"
      by (intro join_not_Nil) (auto simp: solid_def)
    with e show False by (simp add: joinNL_def)
  qed
next
  assume "g = []" then show "joinNL g = []" by (simp add: joinNL_def)
qed

section \<open>Chunks are groups of whole paragraphs\<close>

lemma paragraphLoop_step:
  "paragraphLoop m (p # ps) (cs, cur) =
     (if trim p = [] then paragraphLoop m ps (cs, cur)
      else if tokenCount cur + tokenCount (trim p) > m \<and> cur \<noteq> []
      then paragraphLoop m ps (cs @ [trim cur], trim p)
      else paragraphLoop m ps (cs, cur @ (if cur \<noteq> [] then [NL, NL] else []) @ trim p))"
  by (simp add: Let_def)

lemma paragraphLoop_groups:
  "\<lbrakk>\<forall>g\<in>set gs. g \<noteq> [] \<and> (\<forall>p\<in>set g. solid p); \<forall>p\<in>set g. solid p\<rbrakk> \<Longrightarrow>
   \<exists>gs' g'. paragraphLoop m ps (map joinNL gs, joinNL g) = (map joinNL gs', joinNL g') \<and>
     concat gs' @ g' = concat gs @ g @ filter (\<lambda>p. p \<noteq> []) (map trim ps) \<and>
     (\<forall>g\<in>set gs'. g \<noteq> [] \<and> (\<forall>p\<in>set g. solid p)) \<and> (\<forall>p\<in>set g'. solid p)"
proof (induction ps arbitrary: gs g)
  case Nil
  then show ?case by auto
next
  case (Cons p ps)
  show ?case
  proof (cases "trim p = []")
    case True
    with Cons.IH [OF Cons.prems] show ?thesis by simp
  next
    case False
    then have sp: "solid (trim p)" by (rule trim_solid)
    show ?thesis
    proof (cases "tokenCount (joinNL g) + tokenCount (trim p) > m \<and> joinNL g \<noteq> []")
      case True
      then have gne: "g \<noteq> []" by (auto simp: joinNL_def)
      with Cons.prems(2) have "solid (joinNL g)"
        unfolding joinNL_def by (intro join_solid) auto
      then have tr: "trim (joinNL g) = joinNL g" by (rule solid_trim)
      have step: "paragraphLoop m (p # ps) (map joinNL gs, joinNL g) =
                  paragraphLoop m ps (map joinNL (gs @ [g]), joinNL [trim p])"
        using True False by (simp add: paragraphLoop_step tr joinNL_single del: paragraphLoop.simps)
      have g1: "\<forall>h\<in>set (gs @ [g]). h \<noteq> [] \<and> (\<forall>p\<in>set h. solid p)"
        using Cons.prems gne by auto
      have g2: "\<forall>q\<in>set [trim p]. solid q"
        using sp by simp
      from Cons.IH [OF g1 g2] False show ?thesis
        unfolding step by simp
    next
      case no: False
      have "paragraphLoop m (p # ps) (map joinNL gs, joinNL g) =
            paragraphLoop m ps
              (map joinNL gs, joinNL g @ (if joinNL g \<noteq> [] then [NL, NL] else []) @ trim p)"
        using no False by (subst paragraphLoop_step) auto
      then have step: "paragraphLoop m (p # ps) (map joinNL gs, joinNL g) =
                  paragraphLoop m ps (map joinNL gs, joinNL (g @ [trim p]))"
        by (simp only: joinNL_snoc [OF Cons.prems(2), of "trim p"])
      have g2: "\<forall>q\<in>set (g @ [trim p]). solid q"
        using sp Cons.prems(2) by simp
      from Cons.IH [OF Cons.prems(1) g2] False show ?thesis
        unfolding step by simp
    qed
  qed
qed

lemma flushed_groups:
  "\<exists>gs. flushChunk (paragraphLoop m (splitParagraphs text) ([], [])) = map joinNL gs \<and>
        concat gs = paragraphsOf text \<and> [] \<notin> set gs"
proof -
  have "\<forall>g\<in>set ([] :: string list list). g \<noteq> [] \<and> (\<forall>p\<in>set g. solid p)"
       "\<forall>p\<in>set ([] :: string list). solid p"
    by simp_all
  from paragraphLoop_groups [OF this, of m "splitParagraphs text"]
  obtain gs' g' where
    l: "paragraphLoop m (splitParagraphs text) ([], []) = (map joinNL gs', joinNL g')" and
    c: "concat gs' @ g' = paragraphsOf text" and
    gs': "\<forall>g\<in>set gs'. g \<noteq> [] \<and> (\<forall>p\<in>set g. solid p)" and
    g': "\<forall>p\<in>set g'. solid p"
    by (auto simp: joinNL_def paragraphsOf_def)
  show ?thesis
  proof (cases "g' = []")
    case True
    then have "flushChunk (map joinNL gs', joinNL g') = map joinNL gs'"
      by (simp add: flushChunk_def joinNL_def)
    with l c gs' True show ?thesis by auto
  next
    case False
    with g' have "solid (joinNL g')"
      unfolding joinNL_def by (intro join_solid) auto
    then have "trim (joinNL g') = joinNL g'" "joinNL g' \<noteq> []"
      by (simp_all add: solid_trim solid_not_Nil)
    then have "flushChunk (map joinNL gs', joinNL g') = map joinNL (gs' @ [g'])"
      by (simp add: flushChunk_def)
    moreover have "concat (gs' @ [g']) = paragraphsOf text" "[] \<notin> set (gs' @ [g'])"
      using c gs' False by auto
    ultimately show ?thesis using l by metis
  qed
qed

text \<open>
  Claim C3, amended. For every text with at least one character that is not white
  space and every \<open>maxSize\<close>, \<open>splitIntoChunks\<close> returns at least one chunk; joining the
  chunks with blank lines gives the trimmed non-empty paragraphs of the text joined by
  blank lines; and the chunks are the blank-line joins of consecutive non-empty groups
  of those paragraphs, so each paragraph lies wholly within exactly one chunk, however
  long it is.
\<close>

theorem splitIntoChunks_paragraphs:
  assumes "\<exists>c\<in>set text. \<not> isWhiteSpace c"
  shows "splitIntoChunks text maxSize \<noteq> [] \<and>
         join (splitIntoChunks text maxSize) [NL, NL] = join (paragraphsOf text) [NL, NL] \<and>
         (\<exists>groups. concat groups = paragraphsOf text \<and> [] \<notin> set groups \<and>
                   splitIntoChunks text maxSize = map (\<lambda>g. join g [NL, NL]) groups)"
proof -
  obtain gs where
    f: "flushChunk (paragraphLoop maxSize (splitParagraphs text) ([], [])) = map joinNL gs" and
    c: "concat gs = paragraphsOf text" and n: "[] \<notin> set gs"
    using flushed_groups by blast
  from assms have "paragraphsOf text \<noteq> []"
    by (simp add: paragraphsOf_Nil_iff)
  with c have "gs \<noteq> []" by auto
  with f have s: "splitIntoChunks text maxSize = map (\<lambda>g. join g [NL, NL]) gs"
    by (simp add: splitIntoChunks_def joinNL_def [abs_def])
  have "join (map (\<lambda>g. join g [NL, NL]) gs) [NL, NL] = join (concat gs) [NL, NL]"
    using n by (rule join_concat)
  with s c n \<open>gs \<noteq> []\<close> show ?thesis by auto
qed

text \<open>
  Claim C3, as stated, fails on a non-empty text of white space only: the text of one
  space has no paragraph left after trimming, the loop and the flush produce nothing,
  and the result is the text itself, which is not the join of no paragraphs.
\<close>

theorem splitIntoChunks_paragraphs_counterexample:
  "'' '' \<noteq> [] \<and> (0::nat) < 800 \<and>
   splitIntoChunks '' '' 800 = ['' ''] \<and> paragraphsOf '' '' = [] \<and>
   join (splitIntoChunks '' '' 800) [NL, NL] \<noteq> join (paragraphsOf '' '') [NL, NL]"
  by code_simp

theorem splitIntoChunks_paragraphs_witness:
  "(\<exists>c\<in>set (''Alpha beta.'' @ [NL, NL, NL] @ '' Gamma delta. '' @ [NL, NL] @ ''Epsilon''). \<not> isWhiteSpace c) \<and>
   splitIntoChunks (''Alpha beta.'' @ [NL, NL, NL] @ '' Gamma delta. '' @ [NL, NL] @ ''Epsilon'') 5
     = [''Alpha beta.'', ''Gamma delta.'' @ [NL, NL] @ ''Epsilon''] \<and>
   join (splitIntoChunks (''Alpha beta.'' @ [NL, NL, NL] @ '' Gamma delta. '' @ [NL, NL] @ ''Epsilon'') 5) [NL, NL]
     = join (paragraphsOf (''Alpha beta.'' @ [NL, NL, NL] @ '' Gamma delta. '' @ [NL, NL] @ ''Epsilon'')) [NL, NL]"
proof -
  have h: "\<exists>c\<in>set (''Alpha beta.'' @ [NL, NL, NL] @ '' Gamma delta. '' @ [NL, NL] @ ''Epsilon''). \<not> isWhiteSpace c"
    by code_simp
  have v: "splitIntoChunks (''Alpha beta.'' @ [NL, NL, NL] @ '' Gamma delta. '' @ [NL, NL] @ ''Epsilon'') 5
     = [''Alpha beta.'', ''Gamma delta.'' @ [NL, NL] @ ''Epsilon'']"
    by code_simp
  from splitIntoChunks_paragraphs [OF h, of 5] h v show ?thesis by blast
qed


section \<open>The single-chunk fallback\<close>

text \<open>
  Claim C6, as stated, fails: for a text of one paragraph below the budget the loop
  pushes no chunk, but the flush after it pushes the trimmed paragraph, so the result
  is the trimmed text and not the text verbatim.
\<close>

theorem splitIntoChunks_fallback_counterexample:
  "splitParagraphs '' hello '' = ['' hello ''] \<and> tokenCount '' hello '' < 800 \<and>
   fst (paragraphLoop 800 (splitParagraphs '' hello '') ([], [])) = [] \<and>
   splitIntoChunks '' hello '' 800 = [''hello''] \<and>
   splitIntoChunks '' hello '' 800 \<noteq> ['' hello '']"
  by code_simp

text \<open>
  Claim C6, amended. The loop and the flush after it produce no chunk exactly when the
  text is empty or consists of white space only, and then \<open>splitIntoChunks\<close> returns the
  single chunk that is the text verbatim. A text that is one paragraph with a character
  that is not white space is returned as the single chunk of its trimmed form, whatever
  the budget.
\<close>

theorem splitIntoChunks_fallback:
  "(flushChunk (paragraphLoop maxSize (splitParagraphs text) ([], [])) = [] \<longleftrightarrow>
      (\<forall>c\<in>set text. isWhiteSpace c)) \<and>
   ((\<forall>c\<in>set text. isWhiteSpace c) \<longrightarrow> splitIntoChunks text maxSize = [text]) \<and>
   (splitParagraphs text = [text] \<and> trim text \<noteq> [] \<longrightarrow> splitIntoChunks text maxSize = [trim text])"
proof -
  obtain gs where
    f: "flushChunk (paragraphLoop maxSize (splitParagraphs text) ([], [])) = map joinNL gs" and
    c: "concat gs = paragraphsOf text" and n: "[] \<notin> set gs"
    using flushed_groups by blast
  have "gs = [] \<longleftrightarrow> concat gs = []"
    using n by (cases gs) auto
  with f c have a: "flushChunk (paragraphLoop maxSize (splitParagraphs text) ([], [])) = [] \<longleftrightarrow>
      (\<forall>c\<in>set text. isWhiteSpace c)"
    by (simp add: paragraphsOf_Nil_iff)
  then have b: "(\<forall>c\<in>set text. isWhiteSpace c) \<longrightarrow> splitIntoChunks text maxSize = [text]"
    by (simp add: splitIntoChunks_def)
  have d: "splitIntoChunks text maxSize = [trim text]"
    if one: "splitParagraphs text = [text]" and ne: "trim text \<noteq> []"
  proof -
    have "solid (trim text)" using ne by (rule trim_solid)
    then have "trim (trim text) = trim text" by (rule solid_trim)
    with ne show ?thesis
      by (simp add: splitIntoChunks_def one flushChunk_def Let_def)
  qed
  from a b d show ?thesis by blast
qed

theorem splitIntoChunks_fallback_witness:
  "list_all isWhiteSpace ('' '' @ [NL, NL] @ '' '') \<and>
   splitIntoChunks ('' '' @ [NL, NL] @ '' '') 800 = ['' '' @ [NL, NL] @ '' ''] \<and>
   splitParagraphs '' hello '' = ['' hello ''] \<and> trim '' hello '' \<noteq> [] \<and>
   splitIntoChunks '' hello '' 800 = [trim '' hello '']"
proof -
  have h1: "\<forall>c\<in>set ('' '' @ [NL, NL] @ '' ''). isWhiteSpace c"
    by code_simp
  have h2: "splitParagraphs '' hello '' = ['' hello ''] \<and> trim '' hello '' \<noteq> []"
    by code_simp
  have h3: "list_all isWhiteSpace ('' '' @ [NL, NL] @ '' '')"
    by code_simp
  from splitIntoChunks_fallback [of 800 "'' '' @ [NL, NL] @ '' ''"]
       splitIntoChunks_fallback [of 800 "'' hello ''"] h1 h2 h3
  show ?thesis by blast
qed

section \<open>The keyword-less fallback of search\<close>

lemma config_init: "config (init dir st) = config st"
  by (simp add: init_def Let_def split: option.splits)

text \<open>
  Claim C4, as stated, fails: \<open>this\<close> has four characters and is not in the stop-word
  set, so the query \<open>what is this about\<close> yields the keyword \<open>this\<close>, the chunks are
  scored, and a document without that word gives no result.
\<close>

theorem search_fallback_counterexample:
  "data (init (Some [(''a.txt'', Some ''hello'')]) (newMyDataSource defaultConfig)) \<noteq> [] \<and>
   extractKeywords ''what is this about'' = [''this''] \<and>
   search (init (Some [(''a.txt'', Some ''hello'')]) (newMyDataSource defaultConfig)) ''what is this about'' = []"
proof -
  have d: "data (init (Some [(''a.txt'', Some ''hello'')]) (newMyDataSource defaultConfig))
             = [\<lparr>content = ''hello'', citation = ''a.txt''\<rparr>]"
    by code_simp
  have c: "chunks (init (Some [(''a.txt'', Some ''hello'')]) (newMyDataSource defaultConfig))
             = [\<lparr>content = ''hello'', citation = ''a.txt'', chunkIndex = 0, totalChunks = 1\<rparr>]"
    by code_simp
  have g: "config (init (Some [(''a.txt'', Some ''hello'')]) (newMyDataSource defaultConfig)) = defaultConfig"
    by (simp add: config_init newMyDataSource_def)
  have k: "extractKeywords ''what is this about'' = [''this'']"
    by code_simp
  have m: "matchGlobal (toLowerCase ''hello'') ''this'' = None"
    by code_simp
  have s: "calculateScore ''hello'' [''this''] = 0"
    by (simp add: calculateScore_def m)
  have t: "minScore defaultConfig = 0.1"
    by (simp add: defaultConfig_def)
  show ?thesis
    by (simp add: d c g k s t search_def)
qed

text \<open>
  Claim C4, amended. If at least one document is loaded, then for every non-empty query
  from which keyword extraction yields nothing (such as \<open>what is that about\<close>) \<open>search\<close>
  returns exactly one result: the content and citation of the first loaded document,
  with score 0.5.
\<close>

theorem search_fallback:
  "data st \<noteq> [] \<Longrightarrow> query \<noteq> [] \<Longrightarrow> extractKeywords query = [] \<Longrightarrow>
   search st query = [\<lparr>content = content (hd (data st)), citation = citation (hd (data st)), score = 0.5\<rparr>]"
  by (cases "data st") (simp_all add: search_def)

theorem search_fallback_witness:
  "data (init (Some [(''a.txt'', Some ''hello''), (''b.txt'', Some ''world'')]) (newMyDataSource defaultConfig)) \<noteq> [] \<and>
   ''what is that about'' \<noteq> [] \<and> extractKeywords ''what is that about'' = [] \<and>
   search (init (Some [(''a.txt'', Some ''hello''), (''b.txt'', Some ''world'')]) (newMyDataSource defaultConfig))
     ''what is that about'' = [\<lparr>content = ''hello'', citation = ''a.txt'', score = 0.5\<rparr>]"
proof -
  have d: "data (init (Some [(''a.txt'', Some ''hello''), (''b.txt'', Some ''world'')]) (newMyDataSource defaultConfig))
             = [\<lparr>content = ''hello'', citation = ''a.txt''\<rparr>, \<lparr>content = ''world'', citation = ''b.txt''\<rparr>]"
    by code_simp
  have k: "extractKeywords ''what is that about'' = []"
    by code_simp
  have "search (init (Some [(''a.txt'', Some ''hello''), (''b.txt'', Some ''world'')]) (newMyDataSource defaultConfig))
     ''what is that about'' = [\<lparr>content = ''hello'', citation = ''a.txt'', score = 0.5\<rparr>]"
    using search_fallback [of "init (Some [(''a.txt'', Some ''hello''), (''b.txt'', Some ''world'')]) (newMyDataSource defaultConfig)"
                              "''what is that about''"] k
    by (simp add: d)
  with d k show ?thesis by simp
qed

section \<open>Ranking of the search results\<close>

lemma score_toSearchResult: "score (toSearchResult sc) = snd sc"
  by (simp add: toSearchResult_def)

lemma sorted_uminus_real: "sorted (map (\<lambda>x. - f x) xs) \<longleftrightarrow> sorted_wrt (\<ge>) (map f xs)"
  for f :: "'a \<Rightarrow> real"
  by (induction xs) auto

lemma sorted_wrt_take: "sorted_wrt R xs \<Longrightarrow> sorted_wrt R (take k xs)"
  by (metis append_take_drop_id sorted_wrt_append)

lemma prefix_filter_take: "prefix (filter P (take k xs)) (filter P xs)"
proof -
  have "filter P xs = filter P (take k xs) @ filter P (drop k xs)"
    by (metis append_take_drop_id filter_append)
  then show ?thesis by (simp add: prefix_def)
qed

lemma ranked_sorted: "sorted_wrt (\<ge>) (map snd (ranked cfg scored))"
proof -
  have "sorted (map (\<lambda>sc. - snd sc) (sort_key (\<lambda>sc. - snd sc) (filter (\<lambda>sc. snd sc \<ge> minScore cfg) scored)))"
    by (rule sorted_sort_key)
  then have "sorted_wrt (\<ge>) (map snd (sort_key (\<lambda>sc. - snd sc) (filter (\<lambda>sc. snd sc \<ge> minScore cfg) scored)))"
    by (simp only: sorted_uminus_real)
  then show ?thesis
    unfolding ranked_def take_map [symmetric] by (rule sorted_wrt_take)
qed

lemma ranked_above: "sc \<in> set (ranked cfg scored) \<Longrightarrow> minScore cfg \<le> snd sc"
proof -
  assume "sc \<in> set (ranked cfg scored)"
  then have "sc \<in> set (sort_key (\<lambda>sc. - snd sc) (filter (\<lambda>sc. snd sc \<ge> minScore cfg) scored))"
    unfolding ranked_def by (rule in_set_takeD)
  then show ?thesis by simp
qed

lemma ranked_stable: "prefix (filter (\<lambda>sc. snd sc = s) (ranked cfg scored)) (filter (\<lambda>sc. snd sc = s) scored)"
proof -
  let ?xs = "filter (\<lambda>sc. snd sc \<ge> minScore cfg) scored"
  let ?ys = "sort_key (\<lambda>sc. - snd sc) ?xs"
  have "filter (\<lambda>sc. - snd sc = - s) ?ys = filter (\<lambda>sc. - snd sc = - s) ?xs"
    by (rule sort_key_stable)
  then have st: "filter (\<lambda>sc. snd sc = s) ?ys = filter (\<lambda>sc. snd sc = s) ?xs"
    by simp
  have p1: "prefix (filter (\<lambda>sc. snd sc = s) (ranked cfg scored)) (filter (\<lambda>sc. snd sc = s) ?xs)"
    unfolding ranked_def st [symmetric] by (rule prefix_filter_take)
  show ?thesis
  proof (cases "minScore cfg \<le> s")
    case True
    then have "filter (\<lambda>sc. snd sc = s) ?xs = filter (\<lambda>sc. snd sc = s) scored"
      by (auto simp: filter_filter intro: filter_cong)
    with p1 show ?thesis by simp
  next
    case False
    then have "filter (\<lambda>sc. snd sc = s) ?xs = []"
      by (auto simp: filter_empty_conv)
    with p1 show ?thesis by simp
  qed
qed

lemma extractKeywords_Nil: "extractKeywords [] = []"
  by (simp add: extractKeywords_def toLowerCase_def replaceNonWord_def)

lemma search_scored:
  "extractKeywords query \<noteq> [] \<Longrightarrow>
   search st query = map toSearchResult
     (ranked (config st) (map (\<lambda>chunk. (chunk, calculateScore (content chunk) (extractKeywords query))) (chunks st)))"
proof -
  assume k: "extractKeywords query \<noteq> []"
  then have "query \<noteq> []"
    using extractKeywords_Nil by auto
  with k show ?thesis
    by (simp add: search_def ranked_def)
qed

lemma search_unscored:
  "extractKeywords query = [] \<Longrightarrow>
   search st query = [] \<or>
   search st query = [\<lparr>content = content (hd (data st)), citation = citation (hd (data st)), score = 0.5\<rparr>]"
  by (cases "data st") (auto simp: search_def)

lemma filter_score_map:
  "filter (\<lambda>r. score r = s) (map toSearchResult xs) = map toSearchResult (filter (\<lambda>sc. snd sc = s) xs)"
  by (induction xs) (auto simp: score_toSearchResult)

text \<open>
  Claim C2, amended. With a positive \<open>topK\<close>, for every state and query the results of
  \<open>search\<close> are sorted by non-increasing score and are at most \<open>topK\<close>. When the query
  yields at least one keyword, no result has a score below \<open>minScore\<close>, and for every
  score the results with that score are an initial part of the chunks with that score
  in chunk order. When the query yields no keyword, the result is at most the one
  fallback document, with score 0.5 whatever \<open>minScore\<close> is.
\<close>

theorem search_ranking:
  assumes "0 < topK (config st)"
  shows "sorted_wrt (\<ge>) (map score (search st query)) \<and>
         length (search st query) \<le> topK (config st) \<and>
         (extractKeywords query \<noteq> [] \<longrightarrow>
            (\<forall>r\<in>set (search st query). minScore (config st) \<le> score r) \<and>
            (\<forall>s. prefix (filter (\<lambda>r. score r = s) (search st query))
                    (filter (\<lambda>r. score r = s)
                       (map (\<lambda>chunk. toSearchResult (chunk, calculateScore (content chunk) (extractKeywords query)))
                          (chunks st))))) \<and>
         (extractKeywords query = [] \<longrightarrow>
            length (search st query) \<le> 1 \<and> (\<forall>r\<in>set (search st query). score r = 0.5))"
proof (cases "extractKeywords query = []")
  case True
  from search_unscored [OF True, of st] assms True show ?thesis
    by (elim disjE) auto
next
  case False
  let ?scored = "map (\<lambda>chunk. (chunk, calculateScore (content chunk) (extractKeywords query))) (chunks st)"
  have s: "search st query = map toSearchResult (ranked (config st) ?scored)"
    using False by (rule search_scored)
  have a: "sorted_wrt (\<ge>) (map score (search st query))"
    using ranked_sorted [of "config st" ?scored]
    by (simp add: s comp_def score_toSearchResult)
  have b: "length (search st query) \<le> topK (config st)"
    by (simp add: s ranked_def)
  have c: "\<forall>r\<in>set (search st query). minScore (config st) \<le> score r"
    by (auto simp: s score_toSearchResult dest: ranked_above)
  have d: "prefix (filter (\<lambda>r. score r = x) (search st query))
             (filter (\<lambda>r. score r = x)
                (map (\<lambda>chunk. toSearchResult (chunk, calculateScore (content chunk) (extractKeywords query)))
                   (chunks st)))" for x
  proof -
    have e: "map (\<lambda>chunk. toSearchResult (chunk, calculateScore (content chunk) (extractKeywords query))) (chunks st)
            = map toSearchResult ?scored"
      by (simp add: comp_def)
    show ?thesis
      unfolding e s filter_score_map by (rule map_mono_prefix) (rule ranked_stable)
  qed
  from a b c d False show ?thesis by blast
qed


lemma ln2_ge_tenth: "1 / 10 \<le> ln (2::real)"
proof -
  have "ln (1 / 2 :: real) \<le> 1 / 2 - 1"
    by (rule ln_le_minus_one) simp
  moreover have "ln (1 / 2 :: real) = - ln 2"
    by (simp add: ln_div)
  ultimately show ?thesis by simp
qed

text \<open>
  Claim C2, as stated, fails for the keyword-less fallback: with \<open>minScore = 1\<close> the
  query \<open>what is it about\<close> returns the first document with score 0.5, below the
  threshold.
\<close>

theorem search_ranking_counterexample:
  "0 < topK (config (init (Some [(''a.txt'', Some ''hello'')]) (newMyDataSource (defaultConfig\<lparr>minScore := 1\<rparr>)))) \<and>
   0 \<le> minScore (config (init (Some [(''a.txt'', Some ''hello'')]) (newMyDataSource (defaultConfig\<lparr>minScore := 1\<rparr>)))) \<and>
   search (init (Some [(''a.txt'', Some ''hello'')]) (newMyDataSource (defaultConfig\<lparr>minScore := 1\<rparr>)))
     ''what is it about'' = [\<lparr>content = ''hello'', citation = ''a.txt'', score = 0.5\<rparr>] \<and>
   score (hd (search (init (Some [(''a.txt'', Some ''hello'')]) (newMyDataSource (defaultConfig\<lparr>minScore := 1\<rparr>)))
     ''what is it about''))
     < minScore (config (init (Some [(''a.txt'', Some ''hello'')]) (newMyDataSource (defaultConfig\<lparr>minScore := 1\<rparr>))))"
proof -
  let ?st = "init (Some [(''a.txt'', Some ''hello'')]) (newMyDataSource (defaultConfig\<lparr>minScore := 1\<rparr>))"
  have d: "data ?st = [\<lparr>content = ''hello'', citation = ''a.txt''\<rparr>]"
    by code_simp
  have g: "config ?st = defaultConfig\<lparr>minScore := 1\<rparr>"
    by (simp add: config_init newMyDataSource_def)
  have k: "extractKeywords ''what is it about'' = []"
    by code_simp
  have s: "search ?st ''what is it about'' = [\<lparr>content = ''hello'', citation = ''a.txt'', score = 0.5\<rparr>]"
    by (simp add: search_def k d)
  show ?thesis
    unfolding s g by (simp add: defaultConfig_def)
qed

theorem search_ranking_witness:
  "0 < topK (config (init (Some [(''a.txt'', Some ''fox''), (''b.txt'', Some ''Fox, fox!''), (''c.txt'', Some ''dog'')])
                      (newMyDataSource defaultConfig))) \<and>
   search (init (Some [(''a.txt'', Some ''fox''), (''b.txt'', Some ''Fox, fox!''), (''c.txt'', Some ''dog'')])
            (newMyDataSource defaultConfig)) ''the FOX''
     = [\<lparr>content = ''Fox, fox!'', citation = ''b.txt'', score = ln 3\<rparr>,
        \<lparr>content = ''fox'', citation = ''a.txt'', score = ln 2\<rparr>] \<and>
   sorted_wrt (\<ge>) (map score (search (init (Some [(''a.txt'', Some ''fox''), (''b.txt'', Some ''Fox, fox!''), (''c.txt'', Some ''dog'')])
            (newMyDataSource defaultConfig)) ''the FOX'')) \<and>
   length (search (init (Some [(''a.txt'', Some ''fox''), (''b.txt'', Some ''Fox, fox!''), (''c.txt'', Some ''dog'')])
            (newMyDataSource defaultConfig)) ''the FOX'') \<le> 3"
proof -
  let ?st = "init (Some [(''a.txt'', Some ''fox''), (''b.txt'', Some ''Fox, fox!''), (''c.txt'', Some ''dog'')])
               (newMyDataSource defaultConfig)"
  have c: "chunks ?st =
      [\<lparr>content = ''fox'', citation = ''a.txt'', chunkIndex = 0, totalChunks = 1\<rparr>,
       \<lparr>content = ''Fox, fox!'', citation = ''b.txt'', chunkIndex = 0, totalChunks = 1\<rparr>,
       \<lparr>content = ''dog'', citation = ''c.txt'', chunkIndex = 0, totalChunks = 1\<rparr>]"
    by code_simp
  have g: "config ?st = defaultConfig"
    by (simp add: config_init newMyDataSource_def)
  have t: "topK defaultConfig = 3" "minScore defaultConfig = 1 / 10"
    by (simp_all add: defaultConfig_def)
  have k: "extractKeywords ''the FOX'' = [''fox'']"
    by code_simp
  have m1: "matchGlobal (toLowerCase ''fox'') ''fox'' = Some [''fox'']"
    by code_simp
  have m2: "matchGlobal (toLowerCase ''Fox, fox!'') ''fox'' = Some [''fox'', ''fox'']"
    by code_simp
  have m3: "matchGlobal (toLowerCase ''dog'') ''fox'' = None"
    by code_simp
  have s1: "calculateScore ''fox'' [''fox''] = ln 2"
    by (simp add: calculateScore_def m1)
  have s2: "calculateScore ''Fox, fox!'' [''fox''] = ln 3"
    by (simp add: calculateScore_def m2)
  have s3: "calculateScore ''dog'' [''fox''] = 0"
    by (simp add: calculateScore_def m3)
  have "ln (2::real) \<le> ln 3"
    by simp
  with ln2_ge_tenth have l3: "1 / 10 \<le> ln (3::real)"
    by (rule order_trans)
  have v: "search ?st ''the FOX''
     = [\<lparr>content = ''Fox, fox!'', citation = ''b.txt'', score = ln 3\<rparr>,
        \<lparr>content = ''fox'', citation = ''a.txt'', score = ln 2\<rparr>]"
    using ln2_ge_tenth l3
    by (simp add: search_def k c g t s1 s2 s3 toSearchResult_def)
  have h: "0 < topK (config ?st)"
    by (simp add: g t)
  from search_ranking [OF h, of "''the FOX''"] h v g t show ?thesis
    by simp
qed

section \<open>An example index\<close>

lemma exampleSource_chunks:
  "chunks exampleSource =
     [\<lparr>content = ''The fox runs.'', citation = ''a.txt'', chunkIndex = 0, totalChunks = 2\<rparr>,
      \<lparr>content = ''A quick fox, a brown fox.'', citation = ''a.txt'', chunkIndex = 1, totalChunks = 2\<rparr>,
      \<lparr>content = ''dog'', citation = ''b.txt'', chunkIndex = 0, totalChunks = 1\<rparr>]"
  by code_simp

lemma exampleSource_reachable: "reachable exampleSource"
  unfolding exampleSource_def by (rule r_init [OF r_new])

lemma exampleSource_search:
  "search exampleSource ''the FOX'' =
     [\<lparr>content = ''A quick fox, a brown fox.'', citation = ''a.txt'', score = ln 3\<rparr>,
      \<lparr>content = ''The fox runs.'', citation = ''a.txt'', score = ln 2\<rparr>]"
proof -
  have g: "topK (config exampleSource) = 3" "minScore (config exampleSource) = 1 / 10"
    by (simp_all add: exampleSource_def config_init newMyDataSource_def defaultConfig_def)
  have k: "extractKeywords ''the FOX'' = [''fox'']"
    by code_simp
  have m1: "matchGlobal (toLowerCase ''The fox runs.'') ''fox'' = Some [''fox'']"
    by code_simp
  have m2: "matchGlobal (toLowerCase ''A quick fox, a brown fox.'') ''fox'' = Some [''fox'', ''fox'']"
    by code_simp
  have m3: "matchGlobal (toLowerCase ''dog'') ''fox'' = None"
    by code_simp
  have s1: "calculateScore ''The fox runs.'' [''fox''] = ln 2"
    by (simp add: calculateScore_def m1)
  have s2: "calculateScore ''A quick fox, a brown fox.'' [''fox''] = ln 3"
    by (simp add: calculateScore_def m2)
  have s3: "calculateScore ''dog'' [''fox''] = 0"
    by (simp add: calculateScore_def m3)
  have "ln (2::real) \<le> ln 3"
    by simp
  with ln2_ge_tenth have l3: "1 / 10 \<le> ln (3::real)"
    by (rule order_trans)
  show ?thesis
    using ln2_ge_tenth l3
    by (simp add: search_def k exampleSource_chunks g s1 s2 s3 toSearchResult_def)
qed

section \<open>The rendered context\<close>

lemma fold_renderStep:
  "fold renderStep rs acc =
     (fst acc @ concat (map (\<lambda>r. formatDocument (content r) (citation r) @ [NL, NL]) rs),
      snd acc @ map citation rs)"
  by (induction rs arbitrary: acc) (simp_all add: renderStep_def)

lemma concat_join: "xs \<noteq> [] \<Longrightarrow> concat (map (\<lambda>x. x @ sep) xs) = join xs sep @ sep"
  by (induction xs sep rule: join.induct) simp_all

lemma solid_formatDocument: "solid (formatDocument cont cit)"
  by (simp add: solid_def formatDocument_def isWhiteSpace_def)

lemma trim_append_white:
  assumes "solid s" and "\<forall>c\<in>set w. isWhiteSpace c"
  shows "trim (s @ w) = s"
proof -
  from assms(1) have a: "dropWhile isWhiteSpace (s @ w) = s @ w"
    by (cases s) (auto simp: solid_def)
  have "dropWhile isWhiteSpace (rev w @ rev s) = dropWhile isWhiteSpace (rev s)"
    by (rule dropWhile_append2) (use assms(2) in auto)
  also have "\<dots> = rev s"
    using assms(1) by (cases "rev s") (auto simp: solid_def hd_rev)
  finally show ?thesis
    by (simp add: trim_def a)
qed

text \<open>
  Claim C7. For every query: if \<open>search\<close> returns no result, \<open>renderContext\<close> returns the
  empty content and no sources; otherwise its content is the results' contents, each
  wrapped in its citation-tagged block, in rank order and joined by blank lines, with
  nothing left over at the end after trimming, and its sources are the results'
  citations in the same order, duplicates kept.
\<close>

theorem renderContext_blocks:
  "renderContext st query =
     (if search st query = [] then \<lparr>contextContent = [], sources = []\<rparr>
      else \<lparr>contextContent =
              join (map (\<lambda>r. ''<context source='' @ [CHR 0x22] @ citation r @ [CHR 0x22] @ ''>'' @ [NL]
                            @ content r @ [NL] @ ''</context>'') (search st query)) [NL, NL],
            sources = map citation (search st query)\<rparr>)"
proof (cases "search st query = []")
  case True
  then show ?thesis by (simp add: renderContext_def)
next
  case False
  let ?blocks = "map (\<lambda>r. formatDocument (content r) (citation r)) (search st query)"
  have ne: "?blocks \<noteq> []" using False by simp
  have "concat (map (\<lambda>r. formatDocument (content r) (citation r) @ [NL, NL]) (search st query))
          = concat (map (\<lambda>x. x @ [NL, NL]) ?blocks)"
    by (simp add: comp_def)
  also have "\<dots> = join ?blocks [NL, NL] @ [NL, NL]"
    using ne by (rule concat_join)
  finally have c: "concat (map (\<lambda>r. formatDocument (content r) (citation r) @ [NL, NL]) (search st query))
          = join ?blocks [NL, NL] @ [NL, NL]" .
  have "solid (join ?blocks [NL, NL])"
    using ne by (rule join_solid) (auto simp: solid_formatDocument)
  then have t: "trim (join ?blocks [NL, NL] @ [NL, NL]) = join ?blocks [NL, NL]"
    by (rule trim_append_white) (simp add: isWhiteSpace_NL)
  have "renderContext st query = \<lparr>contextContent = join ?blocks [NL, NL], sources = map citation (search st query)\<rparr>"
    using False by (simp add: renderContext_def Let_def fold_renderStep c t del: join.simps)
  then show ?thesis
    using False by (simp add: formatDocument_def [abs_def])
qed

theorem renderContext_blocks_witness:
  "renderContext exampleSource ''the FOX'' =
     \<lparr>contextContent =
        ''<context source='' @ [CHR 0x22] @ ''a.txt'' @ [CHR 0x22] @ ''>'' @ [NL]
          @ ''A quick fox, a brown fox.'' @ [NL] @ ''</context>'' @ [NL, NL]
          @ ''<context source='' @ [CHR 0x22] @ ''a.txt'' @ [CHR 0x22] @ ''>'' @ [NL]
          @ ''The fox runs.'' @ [NL] @ ''</context>'',
      sources = [''a.txt'', ''a.txt'']\<rparr>"
  using renderContext_blocks [of exampleSource "''the FOX''"]
  by (simp add: exampleSource_search)

section \<open>Numbering of the chunk store\<close>

lemma fold_push_enumerate:
  "fold (\<lambda>(index, chunk) acc. acc @ [f index chunk]) (enumerate n xs) acc
     = acc @ map (\<lambda>i. f (n + i) (xs ! i)) [0 ..< length xs]"
proof (induction xs arbitrary: n acc)
  case Nil
  then show ?case by simp
next
  case (Cons x xs)
  have "map (\<lambda>i. f (n + i) ((x # xs) ! i)) [0 ..< length (x # xs)]
          = f n x # map (\<lambda>i. f (Suc n + i) (xs ! i)) [0 ..< length xs]"
    by (simp add: map_upt_Suc del: upt_Suc)
  with Cons.IH [of "Suc n" "acc @ [f n x]"] show ?case
    by simp
qed

lemma pushDocChunks_append:
  "pushDocChunks cfg doc acc =
     acc @ map (\<lambda>i. \<lparr>content = splitIntoChunks (content doc) (maxChunkSize cfg) ! i,
                      citation = citation doc, chunkIndex = i,
                      totalChunks = length (splitIntoChunks (content doc) (maxChunkSize cfg))\<rparr>)
             [0 ..< length (splitIntoChunks (content doc) (maxChunkSize cfg))]"
  unfolding pushDocChunks_def Let_def
  using fold_push_enumerate
    [of "\<lambda>index chunk. \<lparr>content = chunk, citation = citation doc, chunkIndex = index,
                          totalChunks = length (splitIntoChunks (content doc) (maxChunkSize cfg))\<rparr>" 0]
  by simp

lemma fold_pushDocChunks:
  "fold (pushDocChunks cfg) docs acc =
     acc @ concat (map (\<lambda>doc. map (\<lambda>i. \<lparr>content = splitIntoChunks (content doc) (maxChunkSize cfg) ! i,
                      citation = citation doc, chunkIndex = i,
                      totalChunks = length (splitIntoChunks (content doc) (maxChunkSize cfg))\<rparr>)
             [0 ..< length (splitIntoChunks (content doc) (maxChunkSize cfg))]) docs)"
  by (induction docs arbitrary: acc) (simp_all add: pushDocChunks_append)

lemma reachable_chunks: "reachable st \<Longrightarrow> chunks st = chunkDocuments (config st) (data st)"
proof (induction rule: reachable.induct)
  case (r_new cfg)
  then show ?case by (simp add: newMyDataSource_def chunkDocuments_def)
next
  case (r_init st dir)
  then show ?case by (cases dir) (simp_all add: init_def Let_def)
qed

text \<open>
  Claim C9. In every state after construction and any number of initialisations, the
  chunk store is, document by document in the order of the document store, the \<open>n\<close>
  chunks the document's text splits into, numbered \<open>0\<close> to \<open>n - 1\<close> in order and each with
  \<open>totalChunks = n\<close>; so every chunk in the store has \<open>0 \<le> chunkIndex < totalChunks\<close>.
\<close>

theorem chunk_store_numbering:
  "reachable st \<Longrightarrow>
   chunks st =
     concat (map (\<lambda>doc. map (\<lambda>i. \<lparr>content = splitIntoChunks (content doc) (maxChunkSize (config st)) ! i,
                                   citation = citation doc, chunkIndex = i,
                                   totalChunks = length (splitIntoChunks (content doc) (maxChunkSize (config st)))\<rparr>)
                          [0 ..< length (splitIntoChunks (content doc) (maxChunkSize (config st)))])
            (data st)) \<and>
   (\<forall>c\<in>set (chunks st). 0 \<le> chunkIndex c \<and> chunkIndex c < totalChunks c)"
proof -
  assume "reachable st"
  then have "chunks st = chunkDocuments (config st) (data st)"
    by (rule reachable_chunks)
  then have e: "chunks st =
     concat (map (\<lambda>doc. map (\<lambda>i. \<lparr>content = splitIntoChunks (content doc) (maxChunkSize (config st)) ! i,
                                   citation = citation doc, chunkIndex = i,
                                   totalChunks = length (splitIntoChunks (content doc) (maxChunkSize (config st)))\<rparr>)
                          [0 ..< length (splitIntoChunks (content doc) (maxChunkSize (config st)))])
            (data st))"
    by (simp add: chunkDocuments_def fold_pushDocChunks)
  have "chunkIndex c < totalChunks c" if "c \<in> set (chunks st)" for c
    using that unfolding e by auto
  with e show ?thesis by blast
qed

theorem chunk_store_numbering_witness:
  "reachable exampleSource \<and>
   chunks exampleSource =
     [\<lparr>content = ''The fox runs.'', citation = ''a.txt'', chunkIndex = 0, totalChunks = 2\<rparr>,
      \<lparr>content = ''A quick fox, a brown fox.'', citation = ''a.txt'', chunkIndex = 1, totalChunks = 2\<rparr>,
      \<lparr>content = ''dog'', citation = ''b.txt'', chunkIndex = 0, totalChunks = 1\<rparr>] \<and>
   list_all (\<lambda>c. chunkIndex c < totalChunks c) (chunks exampleSource)"
  using chunk_store_numbering [OF exampleSource_reachable] exampleSource_reachable exampleSource_chunks
  by (simp add: list_all_iff)

section \<open>Keyword extraction is idempotent and ignores case\<close>























section \<open>The score is the formula of the specification\<close>































end
